theory Spec2Isabelle
  imports Main
begin

section \<open>String and array primitives used by the store\<close>

text \<open>
  The store is written in JavaScript. A string is modelled as a \<open>char list\<close>; the
  only characters the code inspects are the two separators.
\<close>

definition slash :: char where
  "slash = CHR ''/''"

definition backslash :: char where
  "backslash = CHR 0x5C"

text \<open>\<^verbatim>\<open>s.split(sep)\<close> for a one-character separator: never the empty array.\<close>

fun split_str :: "char \<Rightarrow> string \<Rightarrow> string list" where
  "split_str sep [] = [[]]"
| "split_str sep (c # cs) =
     (if c = sep then [] # split_str sep cs
      else (case split_str sep cs of
              [] \<Rightarrow> [[c]]
            | w # ws \<Rightarrow> (c # w) # ws))"

text \<open>\<^verbatim>\<open>parts.join(sep)\<close>.\<close>

fun join :: "string \<Rightarrow> string list \<Rightarrow> string" where
  "join sep [] = []"
| "join sep [w] = w"
| "join sep (w # v # ws) = w @ sep @ join sep (v # ws)"

text \<open>\<^verbatim>\<open>r.endsWith(s)\<close> and \<^verbatim>\<open>key.startsWith(s)\<close>.\<close>

definition endsWith :: "string \<Rightarrow> string \<Rightarrow> bool" where
  "endsWith r s = (length s \<le> length r \<and> drop (length r - length s) r = s)"

definition startsWith :: "string \<Rightarrow> string \<Rightarrow> bool" where
  "startsWith r s = (take (length s) r = s)"

text \<open>
  \<^verbatim>\<open>xs.slice(b, e)\<close> on strings and arrays: a negative index counts from the end,
  and both indices are clamped to the length.
\<close>

definition slice :: "int \<Rightarrow> int \<Rightarrow> 'a list \<Rightarrow> 'a list" where
  "slice b e xs =
     (let n = int (length xs);
          from = (if b < 0 then max (n + b) 0 else min b n);
          upto = (if e < 0 then max (n + e) 0 else min e n)
      in take (nat (upto - from)) (drop (nat from) xs))"

text \<open>\<^verbatim>\<open>xs.slice(b)\<close> with a non-negative index, as \<open>readdir\<close> calls it.\<close>

definition slice_from :: "nat \<Rightarrow> 'a list \<Rightarrow> 'a list" where
  "slice_from b xs = drop b xs"

section \<open>Path normalisation\<close>

text \<open>
  \<^verbatim>\<open>while (r.endsWith("/")) r = r.slice(0, -1); return r;\<close>
\<close>

function strip_trailing :: "string \<Rightarrow> string" where
  "strip_trailing r =
     (if endsWith r [slash] then strip_trailing (slice 0 (- 1) r) else r)"
  by pat_completeness auto
termination
  by (relation "measure length") (auto simp: endsWith_def slice_def Let_def)

declare strip_trailing.simps [simp del]

definition normalizePath :: "string \<Rightarrow> string" where
  "normalizePath p = strip_trailing (join [slash] (split_str backslash p))"

section \<open>Entries and the store\<close>

datatype entry_type = File | Directory

record MockFsEntry =
  type :: entry_type
  content :: "string option"
  mtime :: nat

text \<open>
  The state of one store: the \<open>files\<close> map, kept as an association list in
  insertion order (the order \<^verbatim>\<open>files.keys()\<close> iterates in), and \<open>dates\<close>,
  the values the coming calls of \<^verbatim>\<open>new Date()\<close> return.
\<close>

record mockfs =
  files :: "(string \<times> MockFsEntry) list"
  dates :: "nat \<Rightarrow> nat"

definition new_Date :: "mockfs \<Rightarrow> nat \<times> mockfs" where
  "new_Date s = (dates s 0, s\<lparr>dates := (\<lambda>n. dates s (Suc n))\<rparr>)"

subsection \<open>The operations of \<open>Map\<close>\<close>

definition Map_has :: "('k \<times> 'v) list \<Rightarrow> 'k \<Rightarrow> bool" where
  "Map_has m k = (k \<in> set (map fst m))"

definition Map_get :: "('k \<times> 'v) list \<Rightarrow> 'k \<Rightarrow> 'v option" where
  "Map_get m k = map_of m k"

text \<open>\<^verbatim>\<open>m.set(k, v)\<close>: an existing key keeps its position, a new key goes last.\<close>

fun Map_set :: "('k \<times> 'v) list \<Rightarrow> 'k \<Rightarrow> 'v \<Rightarrow> ('k \<times> 'v) list" where
  "Map_set [] k v = [(k, v)]"
| "Map_set ((k', v') # m) k v =
     (if k' = k then (k, v) # m else (k', v') # Map_set m k v)"

definition Map_delete :: "('k \<times> 'v) list \<Rightarrow> 'k \<Rightarrow> ('k \<times> 'v) list" where
  "Map_delete m k = filter (\<lambda>kv. fst kv \<noteq> k) m"

definition Map_keys :: "('k \<times> 'v) list \<Rightarrow> 'k list" where
  "Map_keys m = map fst m"

text \<open>\<^verbatim>\<open>entries.add(name)\<close> on a \<open>Set\<close>, which also iterates in insertion order.\<close>

definition Set_add :: "'a list \<Rightarrow> 'a \<Rightarrow> 'a list" where
  "Set_add xs x = (if x \<in> set xs then xs else xs @ [x])"

subsection \<open>Construction\<close>

text \<open>
  \<open>initialFiles\<close> is the list \<^verbatim>\<open>Object.entries(options.initialFiles)\<close> yields;
  an absent option is \<open>None\<close>.
\<close>

record CreateMockFsOptions =
  initialFiles :: "(string \<times> string) list option"
  initialDirs :: "string list option"

definition set_directory :: "string \<Rightarrow> mockfs \<Rightarrow> mockfs" where
  "set_directory k s =
     (let (d, s') = new_Date s
      in s'\<lparr>files := Map_set (files s') k \<lparr>type = Directory, content = None, mtime = d\<rparr>\<rparr>)"

definition set_file :: "string \<Rightarrow> string \<Rightarrow> mockfs \<Rightarrow> mockfs" where
  "set_file k c s =
     (let (d, s') = new_Date s
      in s'\<lparr>files := Map_set (files s') k \<lparr>type = File, content = Some c, mtime = d\<rparr>\<rparr>)"

definition createMockFs :: "CreateMockFsOptions \<Rightarrow> (nat \<Rightarrow> nat) \<Rightarrow> mockfs" where
  "createMockFs options clock =
     (let s0 = \<lparr>files = [], dates = clock\<rparr>;
          s1 = (case initialDirs options of
                  None \<Rightarrow> s0
                | Some dirs \<Rightarrow> fold (\<lambda>dir. set_directory (normalizePath dir)) dirs s0);
          s2 = (case initialFiles options of
                  None \<Rightarrow> s1
                | Some ents \<Rightarrow> fold (\<lambda>(fp, c). set_file (normalizePath fp) c) ents s1)
      in s2)"

subsection \<open>\<open>ensureParent\<close>\<close>

text \<open>One pass of the loop body, on the pair of \<open>cur\<close> and the store.\<close>

definition ensureParent_step :: "string \<Rightarrow> string \<times> mockfs \<Rightarrow> string \<times> mockfs" where
  "ensureParent_step part cs =
     (let cur = (if fst cs \<noteq> [] then fst cs @ [slash] @ part else part)
      in if cur \<noteq> [] \<and> \<not> Map_has (files (snd cs)) cur
         then (cur, set_directory cur (snd cs))
         else (cur, snd cs))"

definition ensureParent :: "string \<Rightarrow> mockfs \<Rightarrow> mockfs" where
  "ensureParent fp s =
     (let parts = slice 0 (- 1) (split_str slash (normalizePath fp))
      in snd (fold ensureParent_step parts ([], s)))"

subsection \<open>The operations of the store\<close>

datatype error = Error string

definition readFile :: "string \<Rightarrow> mockfs \<Rightarrow> (error + string) \<times> mockfs" where
  "readFile p s =
     (case Map_get (files s) (normalizePath p) of
        None \<Rightarrow> (Inl (Error (''ENOENT: '' @ p)), s)
      | Some e \<Rightarrow>
          if type e \<noteq> File then (Inl (Error (''ENOENT: '' @ p)), s)
          else (Inr (case content e of None \<Rightarrow> [] | Some c \<Rightarrow> c), s))"

definition writeFile :: "string \<Rightarrow> string \<Rightarrow> mockfs \<Rightarrow> mockfs" where
  "writeFile p c s =
     (let np = normalizePath p
      in set_file np c (ensureParent np s))"

definition exists :: "string \<Rightarrow> mockfs \<Rightarrow> bool" where
  "exists p s = Map_has (files s) (normalizePath p)"

definition unlink :: "string \<Rightarrow> mockfs \<Rightarrow> (error + unit) \<times> mockfs" where
  "unlink p s =
     (let np = normalizePath p
      in if \<not> Map_has (files s) np then (Inl (Error (''ENOENT: '' @ p)), s)
         else (Inr (), s\<lparr>files := Map_delete (files s) np\<rparr>))"

text \<open>\<^verbatim>\<open>opts?.recursive\<close> is truthy only for an options object whose flag is true.\<close>

record MkdirOpts =
  recursive :: "bool option"

definition mkdir :: "string \<Rightarrow> MkdirOpts option \<Rightarrow> mockfs \<Rightarrow> mockfs" where
  "mkdir p opts s =
     (let np = normalizePath p;
          s1 = (if (case opts of None \<Rightarrow> False | Some opt \<Rightarrow> recursive opt = Some True)
                then ensureParent (np @ ''/x'') s else s)
      in set_directory np s1)"

definition readdir_step :: "string \<Rightarrow> string \<Rightarrow> string \<Rightarrow> string list \<Rightarrow> string list" where
  "readdir_step np prefix key entries =
     (if startsWith key prefix \<and> key \<noteq> np
      then (let rest = slice_from (length prefix) key
            in case split_str slash rest of
                 [] \<Rightarrow> entries
               | name # _ \<Rightarrow> if name \<noteq> [] then Set_add entries name else entries)
      else entries)"

definition readdir :: "string \<Rightarrow> mockfs \<Rightarrow> string list" where
  "readdir p s =
     (let np = normalizePath p;
          prefix = (if np = [] then [] else np @ [slash])
      in fold (readdir_step np prefix) (Map_keys (files s)) [])"

definition reset :: "mockfs \<Rightarrow> mockfs" where
  "reset s = s\<lparr>files := []\<rparr>"

subsection \<open>Sequences of calls\<close>

text \<open>
  A test drives a store through its methods. \<open>perform\<close> is the store after one call;
  an error thrown by \<open>readFile\<close> or \<open>unlink\<close> leaves the store as it was when thrown.
\<close>

datatype call =
    ReadFile string
  | WriteFile string string
  | Exists string
  | Unlink string
  | Mkdir string "MkdirOpts option"
  | Readdir string
  | Reset

fun perform :: "call \<Rightarrow> mockfs \<Rightarrow> mockfs" where
  "perform (ReadFile p) s = snd (readFile p s)"
| "perform (WriteFile p c) s = writeFile p c s"
| "perform (Exists p) s = s"
| "perform (Unlink p) s = snd (unlink p s)"
| "perform (Mkdir p opts) s = mkdir p opts s"
| "perform (Readdir p) s = s"
| "perform Reset s = reset s"

definition run :: "call list \<Rightarrow> mockfs \<Rightarrow> mockfs" where
  "run calls s = fold perform calls s"

section \<open>Notions the properties are stated with\<close>

text \<open>The character-wise effect of \<^verbatim>\<open>p.split("\\").join("/")\<close>.\<close>

definition toSlash :: "char \<Rightarrow> char" where
  "toSlash c = (if c = backslash then slash else c)"

definition isSep :: "char \<Rightarrow> bool" where
  "isSep c = (c = slash \<or> c = backslash)"

text \<open>A path made of separators only (the empty path among them).\<close>

definition allSeparators :: "string \<Rightarrow> bool" where
  "allSeparators p = list_all isSep p"

text \<open>
  Two paths differ only in separator style or in trailing separators: once the trailing
  separators of each are dropped, they have the same length and agree position by
  position, except that one may have a slash where the other has a backslash.
\<close>

definition sameUpToStyle :: "char \<Rightarrow> char \<Rightarrow> bool" where
  "sameUpToStyle a b = (a = b \<or> (isSep a \<and> isSep b))"

definition dropTrailingSeps :: "string \<Rightarrow> string" where
  "dropTrailingSeps p = rev (dropWhile isSep (rev p))"

definition differOnlyInSeparators :: "string \<Rightarrow> string \<Rightarrow> bool" where
  "differOnlyInSeparators p1 p2 =
     list_all2 sameUpToStyle (dropTrailingSeps p1) (dropTrailingSeps p2)"

text \<open>The two loops of \<open>createMockFs\<close>, by name.\<close>

abbreviation dirs_loop :: "string list \<Rightarrow> mockfs \<Rightarrow> mockfs" where
  "dirs_loop dirs s \<equiv> fold (\<lambda>dir. set_directory (normalizePath dir)) dirs s"

abbreviation files_loop :: "(string \<times> string) list \<Rightarrow> mockfs \<Rightarrow> mockfs" where
  "files_loop ents s \<equiv> fold (\<lambda>(fp, c). set_file (normalizePath fp) c) ents s"

text \<open>The paths a store is constructed from.\<close>

definition initialPaths :: "CreateMockFsOptions \<Rightarrow> string list" where
  "initialPaths options =
     (case initialDirs options of None \<Rightarrow> [] | Some dirs \<Rightarrow> dirs) @
     (case initialFiles options of None \<Rightarrow> [] | Some ents \<Rightarrow> map fst ents)"

text \<open>A call of \<open>writeFile\<close> or \<open>mkdir\<close> whose path is made of separators only.\<close>

fun createsAtAllSlashPath :: "call \<Rightarrow> bool" where
  "createsAtAllSlashPath (WriteFile p c) = allSeparators p"
| "createsAtAllSlashPath (Mkdir p opts) = allSeparators p"
| "createsAtAllSlashPath _ = False"

text \<open>A time source for the examples: the n-th \<^verbatim>\<open>new Date()\<close> returns n.\<close>

definition ticks :: "nat \<Rightarrow> nat" where
  "ticks n = n"

section \<open>Example stores\<close>

definition store1 :: mockfs where
  "store1 =
     \<lparr>files = [(''/src'', \<lparr>type = Directory, content = None, mtime = 0\<rparr>),
               (''/src/a.ts'', \<lparr>type = File, content = Some ''let a'', mtime = 1\<rparr>),
               (''/src/b.ts'', \<lparr>type = File, content = None, mtime = 2\<rparr>)],
      dates = ticks\<rparr>"

definition opts8 :: CreateMockFsOptions where
  "opts8 = \<lparr>initialFiles = Some [(''/src'', ''old''), (''/src/'', ''x''), (''/a.txt'', ''y'')],
            initialDirs = Some [''/dist'', ''/src'']\<rparr>"

definition optsAlias :: CreateMockFsOptions where
  "optsAlias = \<lparr>initialFiles = Some [(''/src/'', ''x''), (''/src'', ''y'')],
                initialDirs = Some [''/src'']\<rparr>"

definition opts10 :: CreateMockFsOptions where
  "opts10 = \<lparr>initialFiles = Some [(''/config.json'', ''{}'')], initialDirs = None\<rparr>"

definition calls10 :: "call list" where
  "calls10 = [WriteFile ''/a.txt'' ''x'', Mkdir ''/d'' None, Unlink ''/a.txt'']"

section \<open>Facts about the primitives\<close>

lemma split_str_nonempty: "split_str sep s \<noteq> []"
  by (induction s) (auto split: list.splits)

lemma join_Cons: "ws \<noteq> [] \<Longrightarrow> join sep (w # ws) = w @ sep @ join sep ws"
  by (cases ws) simp_all

text \<open>Splitting at one character and joining with another replaces the character.\<close>

lemma join_split_str:
  "join [t] (split_str b p) = map (\<lambda>c. if c = b then t else c) p"
proof (induction p)
  case Nil
  show ?case by simp
next
  case (Cons c cs)
  obtain w ws where sp: "split_str b cs = w # ws"
    using split_str_nonempty [of b cs] by (cases "split_str b cs") auto
  show ?case
  proof (cases "c = b")
    case True
    then show ?thesis using Cons.IH sp by (simp add: join_Cons)
  next
    case False
    have "join [t] ((c # w) # ws) = c # join [t] (w # ws)"
      by (cases ws) simp_all
    then show ?thesis using False Cons.IH sp by simp
  qed
qed

lemma slice_0_m1: "slice 0 (- 1) xs = butlast xs"
  by (cases xs rule: rev_cases) (auto simp: slice_def Let_def)

lemma endsWith_single: "endsWith r [c] \<longleftrightarrow> r \<noteq> [] \<and> last r = c"
  by (cases r rule: rev_cases) (auto simp: endsWith_def)

text \<open>The loop of \<open>normalizePath\<close> removes exactly the trailing run of slashes.\<close>

lemma strip_trailing_eq:
  "strip_trailing r = rev (dropWhile (\<lambda>c. c = slash) (rev r))"
proof (induction r rule: strip_trailing.induct)
  case (1 r)
  show ?case
  proof (cases "endsWith r [slash]")
    case True
    then obtain ys where r: "r = ys @ [slash]"
      by (cases r rule: rev_cases) (auto simp: endsWith_single)
    have "strip_trailing r = strip_trailing (slice 0 (- 1) r)"
      using True by (subst strip_trailing.simps) simp
    also have "\<dots> = rev (dropWhile (\<lambda>c. c = slash) (rev (slice 0 (- 1) r)))"
      using "1.IH" [OF True] .
    finally show ?thesis using r by (simp add: slice_0_m1)
  next
    case False
    have "strip_trailing r = r"
      using False by (subst strip_trailing.simps) simp
    moreover have "rev (dropWhile (\<lambda>c. c = slash) (rev r)) = r"
      using False by (cases r rule: rev_cases) (auto simp: endsWith_single)
    ultimately show ?thesis by simp
  qed
qed

lemma normalizePath_eq:
  "normalizePath p = rev (dropWhile (\<lambda>c. c = slash) (rev (map toSlash p)))"
  unfolding normalizePath_def strip_trailing_eq join_split_str toSlash_def ..

lemma Map_get_set: "Map_get (Map_set m k v) k' = (if k' = k then Some v else Map_get m k')"
  by (induction m) (auto simp: Map_get_def)

lemma Map_has_get: "Map_has m k \<longleftrightarrow> Map_get m k \<noteq> None"
  by (simp add: Map_has_def Map_get_def map_of_eq_None_iff)

lemma Map_has_set: "Map_has (Map_set m k v) k' \<longleftrightarrow> k' = k \<or> Map_has m k'"
  by (simp add: Map_has_get Map_get_set)

lemma Map_get_delete: "Map_get (Map_delete m k) k' = (if k' = k then None else Map_get m k')"
  by (induction m) (auto simp: Map_get_def Map_delete_def)

lemma Map_has_delete: "Map_has (Map_delete m k) k' \<longleftrightarrow> k' \<noteq> k \<and> Map_has m k'"
  by (simp add: Map_has_get Map_get_delete)

lemma files_set_file:
  "files (set_file k c s) =
     Map_set (files s) k \<lparr>type = File, content = Some c, mtime = dates s 0\<rparr>"
  by (simp add: set_file_def new_Date_def)

lemma files_set_directory:
  "files (set_directory k s) =
     Map_set (files s) k \<lparr>type = Directory, content = None, mtime = dates s 0\<rparr>"
  by (simp add: set_directory_def new_Date_def)

lemma Map_keys_delete: "Map_keys (Map_delete m k) = removeAll k (Map_keys m)"
  by (induction m) (auto simp: Map_keys_def Map_delete_def)

text \<open>A map with unique keys keeps them unique.\<close>

lemma Map_keys_set: "set (Map_keys (Map_set m k v)) = insert k (set (Map_keys m))"
  using Map_has_set [of m k v] by (auto simp: Map_has_def Map_keys_def)

lemma distinct_Map_set: "distinct (Map_keys m) \<Longrightarrow> distinct (Map_keys (Map_set m k v))"
proof (induction m)
  case Nil
  show ?case by (simp add: Map_keys_def)
next
  case (Cons e m)
  obtain k' v' where e: "e = (k', v')" by (cases e)
  have d: "distinct (Map_keys m)" and n: "k' \<notin> set (Map_keys m)"
    using Cons.prems e by (simp_all add: Map_keys_def)
  show ?case
  proof (cases "k' = k")
    case True
    then show ?thesis using d n e by (simp add: Map_keys_def)
  next
    case False
    have "Map_keys (Map_set (e # m) k v) = k' # Map_keys (Map_set m k v)"
      using False e by (simp add: Map_keys_def)
    then show ?thesis
      using False n Cons.IH [OF d] by (simp add: Map_keys_set)
  qed
qed

lemma distinct_Map_delete: "distinct (Map_keys m) \<Longrightarrow> distinct (Map_keys (Map_delete m k))"
  by (simp add: Map_keys_delete distinct_removeAll)

section \<open>Normalisation in terms of separators\<close>

lemma toSlash_slash_iff: "toSlash c = slash \<longleftrightarrow> isSep c"
  by (simp add: toSlash_def isSep_def)

lemma normalizePath_dropTrailingSeps:
  "normalizePath p = map toSlash (dropTrailingSeps p)"
proof -
  have "dropWhile (\<lambda>c. c = slash) (map toSlash xs) = map toSlash (dropWhile isSep xs)" for xs
    by (induction xs) (simp_all add: toSlash_slash_iff)
  then show ?thesis
    by (simp add: normalizePath_eq dropTrailingSeps_def rev_map)
qed

lemma sameUpToStyle_toSlash: "sameUpToStyle a b \<Longrightarrow> toSlash a = toSlash b"
  by (auto simp: sameUpToStyle_def isSep_def toSlash_def)

lemma differOnlyInSeparators_normalizePath:
  assumes "differOnlyInSeparators p1 p2"
  shows "normalizePath p1 = normalizePath p2"
proof -
  have "list_all2 sameUpToStyle xs ys \<Longrightarrow> map toSlash xs = map toSlash ys" for xs ys
    by (induction xs ys rule: list_all2_induct) (simp_all add: sameUpToStyle_toSlash)
  then show ?thesis
    using assms by (simp add: normalizePath_dropTrailingSeps differOnlyInSeparators_def)
qed

lemma normalizePath_Nil_iff: "normalizePath p = [] \<longleftrightarrow> allSeparators p"
  by (simp add: normalizePath_dropTrailingSeps dropTrailingSeps_def allSeparators_def
      dropWhile_eq_Nil_conv list_all_iff)

lemma normalizePath_examples:
  "normalizePath ''/src'' = ''/src''"
  "normalizePath ''/src/'' = ''/src''"
  "normalizePath ''/dist'' = ''/dist''"
  "normalizePath ''/a.txt'' = ''/a.txt''"
  "normalizePath ''/src/a.ts'' = ''/src/a.ts''"
  "normalizePath ''/src/b.ts/'' = ''/src/b.ts''"
  "normalizePath ''/nope'' = ''/nope''"
  by (simp_all add: normalizePath_eq toSlash_def slash_def backslash_def)

section \<open>Construction: the files are stored after the directories\<close>

text \<open>Every insertion reads the time source once.\<close>

lemma dates_set_directory: "dates (set_directory k s) = (\<lambda>n. dates s (Suc n))"
  by (simp add: set_directory_def new_Date_def)

lemma dates_set_file: "dates (set_file k c s) = (\<lambda>n. dates s (Suc n))"
  by (simp add: set_file_def new_Date_def)

lemma dates_dirs_loop: "dates (dirs_loop dirs s) = (\<lambda>n. dates s (n + length dirs))"
  by (induction dirs arbitrary: s) (simp_all add: dates_set_directory)

lemma dates_files_loop: "dates (files_loop ents s) = (\<lambda>n. dates s (n + length ents))"
proof (induction ents arbitrary: s)
  case Nil
  show ?case by simp
next
  case (Cons e ents)
  obtain fp c where e: "e = (fp, c)" by (cases e)
  show ?case
    using Cons.IH [of "set_file (normalizePath fp) c s"] e by (simp add: dates_set_file)
qed

text \<open>The directories loop leaves a Directory entry under the key of each of its paths.\<close>

lemma dirs_loop_Directory:
  "k \<in> normalizePath ` set dirs \<Longrightarrow>
   map_option type (Map_get (files (dirs_loop dirs s)) k) = Some Directory"
proof (induction dirs rule: rev_induct)
  case Nil
  then show ?case by simp
next
  case (snoc d dirs)
  show ?case
  proof (cases "normalizePath d = k")
    case True
    then show ?thesis by (simp add: files_set_directory Map_get_set)
  next
    case False
    then have "k \<in> normalizePath ` set dirs" using snoc.prems by auto
    from snoc.IH [OF this] show ?thesis
      using False by (simp add: files_set_directory Map_get_set)
  qed
qed

text \<open>The files loop leaves alone every key that none of its paths normalises to.\<close>

lemma files_loop_other:
  "\<not> list_ex (\<lambda>e. normalizePath (fst e) = k) ents \<Longrightarrow>
   Map_get (files (files_loop ents s)) k = Map_get (files s) k"
proof (induction ents arbitrary: s)
  case Nil
  show ?case by simp
next
  case (Cons e ents)
  obtain fp c where e: "e = (fp, c)" by (cases e)
  have 1: "normalizePath fp \<noteq> k"
    and 2: "\<not> list_ex (\<lambda>e. normalizePath (fst e) = k) ents"
    using Cons.prems e by simp_all
  show ?case
    using Cons.IH [OF 2, of "set_file (normalizePath fp) c s"] 1 e
    by (simp add: files_set_file Map_get_set)
qed

text \<open>
  The entry the files loop leaves for a path that no later path is an alias of: the
  content of that path, stamped with the date read at its own turn.
\<close>

lemma files_loop_last:
  assumes "\<not> list_ex (\<lambda>e. normalizePath (fst e) = normalizePath fp) post"
  shows "Map_get (files (files_loop (pre @ (fp, c) # post) s)) (normalizePath fp) =
           Some \<lparr>type = File, content = Some c, mtime = dates s (length pre)\<rparr>"
proof -
  have "Map_get (files (set_file (normalizePath fp) c (files_loop pre s))) (normalizePath fp) =
          Some \<lparr>type = File, content = Some c, mtime = dates s (length pre)\<rparr>"
    by (simp add: files_set_file Map_get_set dates_files_loop)
  then show ?thesis
    using files_loop_other [OF assms, of "set_file (normalizePath fp) c (files_loop pre s)"]
    by simp
qed

text \<open>Storing keeps the keys already present where they are.\<close>

lemma Map_keys_Map_set:
  "Map_keys (Map_set m k v) = Map_keys m @ (if k \<in> set (Map_keys m) then [] else [k])"
  by (induction m) (force simp: Map_keys_def)+

lemma take_keys_set_file:
  "take n (Map_keys (files s)) = ks \<Longrightarrow> n \<le> length (files s) \<Longrightarrow>
   take n (Map_keys (files (set_file k c s))) = ks"
  by (simp add: files_set_file Map_keys_Map_set) (simp add: Map_keys_def)

lemma length_files_set_file: "length (files s) \<le> length (files (set_file k c s))"
  using arg_cong [OF Map_keys_Map_set, of length "files s" k]
  by (simp add: files_set_file Map_keys_def)

lemma files_loop_keeps_prefix:
  "take n (Map_keys (files s)) = ks \<Longrightarrow> n \<le> length (files s) \<Longrightarrow>
   take n (Map_keys (files (files_loop ents s))) = ks"
proof (induction ents arbitrary: s)
  case Nil
  then show ?case by simp
next
  case (Cons e ents)
  obtain fp c where e: "e = (fp, c)" by (cases e)
  have 1: "take n (Map_keys (files (set_file (normalizePath fp) c s))) = ks"
    using Cons.prems by (rule take_keys_set_file)
  have 2: "n \<le> length (files (set_file (normalizePath fp) c s))"
    using Cons.prems(2) length_files_set_file [of s "normalizePath fp" c] by simp
  show ?case
    using Cons.IH [OF 1 2] e by simp
qed

section \<open>The empty key\<close>

lemma set_directory_no_root:
  "k \<noteq> [] \<Longrightarrow> Map_has (files (set_directory k s)) [] = Map_has (files s) []"
  by (auto simp: files_set_directory Map_has_set)

lemma set_file_no_root:
  "k \<noteq> [] \<Longrightarrow> Map_has (files (set_file k c s)) [] = Map_has (files s) []"
  by (auto simp: files_set_file Map_has_set)

text \<open>The guard \<^verbatim>\<open>cur &&\<close> keeps \<open>ensureParent\<close> from ever storing the empty key.\<close>

lemma ensureParent_step_no_root:
  "Map_has (files (snd (ensureParent_step part cs))) [] = Map_has (files (snd cs)) []"
  by (simp add: ensureParent_step_def Let_def set_directory_no_root)

lemma fold_ensureParent_step_no_root:
  "Map_has (files (snd (fold ensureParent_step parts cs))) [] = Map_has (files (snd cs)) []"
  by (induction parts arbitrary: cs) (simp_all add: ensureParent_step_no_root)

lemma ensureParent_no_root:
  "Map_has (files (ensureParent fp s)) [] = Map_has (files s) []"
  by (simp add: ensureParent_def Let_def fold_ensureParent_step_no_root)

lemma writeFile_no_root:
  "\<not> allSeparators p \<Longrightarrow> Map_has (files (writeFile p c s)) [] = Map_has (files s) []"
  by (simp add: writeFile_def Let_def set_file_no_root ensureParent_no_root normalizePath_Nil_iff)

lemma mkdir_no_root:
  "\<not> allSeparators p \<Longrightarrow> Map_has (files (mkdir p opts s)) [] = Map_has (files s) []"
  by (simp add: mkdir_def Let_def set_directory_no_root ensureParent_no_root normalizePath_Nil_iff)

lemma perform_no_root:
  assumes "\<not> createsAtAllSlashPath c" and "\<not> Map_has (files s) []"
  shows "\<not> Map_has (files (perform c s)) []"
proof (cases c)
  case (ReadFile p)
  then show ?thesis using assms(2) by (simp add: readFile_def split: option.split)
next
  case (WriteFile p x)
  then show ?thesis using assms by (simp add: writeFile_no_root)
next
  case (Unlink p)
  then show ?thesis using assms(2) by (simp add: unlink_def Let_def Map_has_delete)
next
  case (Mkdir p opts)
  then show ?thesis using assms by (simp add: mkdir_no_root)
next
  case Reset
  then show ?thesis by (simp add: reset_def Map_has_def)
qed (use assms(2) in simp_all)

lemma run_no_root:
  "\<not> list_ex createsAtAllSlashPath calls \<Longrightarrow> \<not> Map_has (files s) [] \<Longrightarrow>
   \<not> Map_has (files (run calls s)) []"
  unfolding run_def
proof (induction calls arbitrary: s)
  case Nil
  then show ?case by simp
next
  case (Cons c calls)
  have "\<not> Map_has (files (perform c s)) []"
    using Cons.prems by (intro perform_no_root) simp_all
  moreover have "\<not> list_ex createsAtAllSlashPath calls"
    using Cons.prems by simp
  ultimately show ?case
    using Cons.IH [of "perform c s"] by simp
qed

lemma fold_set_directory_no_root:
  "\<not> list_ex allSeparators dirs \<Longrightarrow>
   Map_has (files (fold (\<lambda>dir. set_directory (normalizePath dir)) dirs s)) [] =
     Map_has (files s) []"
proof (induction dirs arbitrary: s)
  case Nil
  show ?case by simp
next
  case (Cons dir dirs)
  have 1: "normalizePath dir \<noteq> []" and 2: "\<not> list_ex allSeparators dirs"
    using Cons.prems by (simp_all add: normalizePath_Nil_iff)
  show ?case
    using Cons.IH [OF 2, of "set_directory (normalizePath dir) s"]
      set_directory_no_root [OF 1, of s]
    by simp
qed

lemma fold_set_file_no_root:
  "\<not> list_ex allSeparators (map fst ents) \<Longrightarrow>
   Map_has (files (fold (\<lambda>(fp, c). set_file (normalizePath fp) c) ents s)) [] =
     Map_has (files s) []"
proof (induction ents arbitrary: s)
  case Nil
  show ?case by simp
next
  case (Cons e ents)
  obtain fp c where e: "e = (fp, c)" by (cases e)
  have 1: "normalizePath fp \<noteq> []" and 2: "\<not> list_ex allSeparators (map fst ents)"
    using Cons.prems e by (simp_all add: normalizePath_Nil_iff)
  show ?case
    using Cons.IH [OF 2, of "set_file (normalizePath fp) c s"]
      set_file_no_root [OF 1, of c s] e
    by simp
qed

lemma createMockFs_no_root:
  assumes "\<not> list_ex allSeparators (initialPaths opts)"
  shows "\<not> Map_has (files (createMockFs opts clock)) []"
proof -
  have d: "\<not> list_ex allSeparators dirs" if "initialDirs opts = Some dirs" for dirs
    using assms that by (simp add: initialPaths_def)
  have f: "\<not> list_ex allSeparators (map fst ents)" if "initialFiles opts = Some ents" for ents
    using assms that by (simp add: initialPaths_def)
  have e: "\<not> Map_has (files \<lparr>files = [], dates = clock\<rparr>) []"
    by (simp add: Map_has_def)
  show ?thesis
    using d f e
    by (simp add: createMockFs_def Let_def fold_set_directory_no_root fold_set_file_no_root
        split: option.split)
qed

section \<open>The claims\<close>

text \<open>
  C1. After \<open>writeFile "/a/b/c.txt" "x"\<close> on an empty store the claim expects
  \<open>exists "/a"\<close> and \<open>exists "/a/b"\<close> to be true and \<open>readdir "/a"\<close> to contain \<open>b\<close>.
  The code does list \<open>b\<close>, but \<open>ensureParent\<close> starts \<open>cur\<close> from the empty first
  segment of an absolute path and so stores the ancestors under \<open>a\<close> and \<open>a/b\<close>, without
  the leading slash: both existence checks are false, on every empty store.
\<close>

theorem writeFile_ancestors_lose_leading_slash:
  "Map_keys (files (writeFile ''/a/b/c.txt'' ''x'' \<lparr>files = [], dates = d\<rparr>)) =
     [''a'', ''a/b'', ''/a/b/c.txt''] \<and>
   \<not> exists ''/a'' (writeFile ''/a/b/c.txt'' ''x'' \<lparr>files = [], dates = d\<rparr>) \<and>
   \<not> exists ''/a/b'' (writeFile ''/a/b/c.txt'' ''x'' \<lparr>files = [], dates = d\<rparr>) \<and>
   readdir ''/a'' (writeFile ''/a/b/c.txt'' ''x'' \<lparr>files = [], dates = d\<rparr>) = [''b'']"
  by code_simp

text \<open>
  C2. On the store constructed from \<open>initialFiles = {"/config.json": "{}"}\<close> alone,
  \<open>readFile "/config.json"\<close> returns \<open>{}\<close> as claimed, but \<open>readdir "/"\<close> is empty:
  for the root the prefix is the empty string, the rest of the key \<open>/config.json\<close> starts
  with a slash, and its first segment is the empty name, which is dropped.
\<close>

theorem readdir_root_misses_absolute_keys:
  "fst (readFile ''/config.json'' (createMockFs opts10 clock)) = Inr ''{}'' \<and>
   Map_keys (files (createMockFs opts10 clock)) = [''/config.json''] \<and>
   readdir ''/'' (createMockFs opts10 clock) = []"
  unfolding opts10_def by code_simp

text \<open>
  C3. After \<open>mkdir "/x/y/z" {recursive: true}\<close> on an empty store the claim expects
  \<open>exists\<close> to be true of \<open>/x\<close>, \<open>/x/y\<close> and \<open>/x/y/z\<close>. Only the last holds: the
  ancestors are stored under \<open>x\<close>, \<open>x/y\<close> and \<open>x/y/z\<close>, without the leading slash.
\<close>

theorem mkdir_recursive_ancestors_lose_leading_slash:
  "Map_keys (files (mkdir ''/x/y/z'' (Some \<lparr>recursive = Some True\<rparr>) \<lparr>files = [], dates = d\<rparr>)) =
     [''x'', ''x/y'', ''x/y/z'', ''/x/y/z''] \<and>
   \<not> exists ''/x'' (mkdir ''/x/y/z'' (Some \<lparr>recursive = Some True\<rparr>) \<lparr>files = [], dates = d\<rparr>) \<and>
   \<not> exists ''/x/y'' (mkdir ''/x/y/z'' (Some \<lparr>recursive = Some True\<rparr>) \<lparr>files = [], dates = d\<rparr>) \<and>
   exists ''/x/y/z'' (mkdir ''/x/y/z'' (Some \<lparr>recursive = Some True\<rparr>) \<lparr>files = [], dates = d\<rparr>)"
  by code_simp

text \<open>
  C4. On every store, for every path \<open>P\<close> and content \<open>C\<close>, \<open>writeFile P C\<close> followed at
  once by \<open>readFile P\<close> succeeds and returns exactly \<open>C\<close>; the read leaves the store as the
  write made it.
\<close>

theorem writeFile_readFile_roundtrip:
  "readFile P (writeFile P C s) = (Inr C, writeFile P C s)"
  by (simp add: readFile_def writeFile_def Let_def files_set_file Map_get_set)

text \<open>
  C5. On every store, for paths \<open>P1\<close> and \<open>P2\<close> that differ only in separator style or in
  trailing separators, \<open>exists P1\<close> equals \<open>exists P2\<close>, and \<open>readFile P1\<close> and
  \<open>readFile P2\<close> either both fail or both return the same content. (The two error
  messages quote the path as given, so they may differ.)
\<close>

theorem separator_style_irrelevant:
  assumes "differOnlyInSeparators P1 P2"
  shows "exists P1 s = exists P2 s \<and>
         ((isl (fst (readFile P1 s)) \<and> isl (fst (readFile P2 s))) \<or>
          (\<exists>c. fst (readFile P1 s) = Inr c \<and> fst (readFile P2 s) = Inr c))"
proof -
  have n: "normalizePath P1 = normalizePath P2"
    using assms by (rule differOnlyInSeparators_normalizePath)
  show ?thesis
    by (simp add: exists_def readFile_def n split: option.split)
qed

theorem separator_style_irrelevant_witness:
  "differOnlyInSeparators (backslash # ''src/a.ts'') (''/src'' @ backslash # ''a.ts//'') \<and>
   exists (backslash # ''src/a.ts'') store1 \<and>
   exists (''/src'' @ backslash # ''a.ts//'') store1 \<and>
   fst (readFile (backslash # ''src/a.ts'') store1) = Inr ''let a'' \<and>
   fst (readFile (''/src'' @ backslash # ''a.ts//'') store1) = Inr ''let a''"
proof -
  have h: "differOnlyInSeparators (backslash # ''src/a.ts'') (''/src'' @ backslash # ''a.ts//'')"
    by (simp add: differOnlyInSeparators_def dropTrailingSeps_def sameUpToStyle_def isSep_def
        slash_def backslash_def)
  have n: "normalizePath (backslash # ''src/a.ts'') = ''/src/a.ts''"
    by (simp add: normalizePath_eq toSlash_def slash_def backslash_def)
  have e: "exists (backslash # ''src/a.ts'') store1"
    by (simp add: exists_def n store1_def Map_has_def)
  have r: "fst (readFile (backslash # ''src/a.ts'') store1) = Inr ''let a''"
    by (simp add: readFile_def n store1_def Map_get_def)
  show ?thesis
    using h e r separator_style_irrelevant [OF h, of store1] by auto
qed

text \<open>
  C6. \<open>readFile P\<close> fails exactly when the normalised key of \<open>P\<close> has no entry or a
  Directory entry, and then with the \<open>ENOENT\<close> error; on a File entry it returns the
  content, the empty string when the content is absent. The store is unchanged either way.
\<close>

theorem readFile_result:
  "(isl (fst (readFile P s)) \<longleftrightarrow>
      Map_get (files s) (normalizePath P) = None \<or>
      (\<exists>e. Map_get (files s) (normalizePath P) = Some e \<and> type e = Directory)) \<and>
   (isl (fst (readFile P s)) \<longrightarrow> fst (readFile P s) = Inl (Error (''ENOENT: '' @ P))) \<and>
   (\<forall>e. Map_get (files s) (normalizePath P) = Some e \<and> type e = File \<longrightarrow>
      fst (readFile P s) = Inr (case content e of None \<Rightarrow> [] | Some c \<Rightarrow> c)) \<and>
   snd (readFile P s) = s"
proof -
  have d: "t \<noteq> File \<longleftrightarrow> t = Directory" for t
    by (cases t) simp_all
  show ?thesis
    by (auto simp: readFile_def d split: option.split)
qed

theorem readFile_result_witness:
  "Map_get (files store1) (normalizePath ''/src/b.ts/'') =
     Some \<lparr>type = File, content = None, mtime = 2\<rparr> \<and>
   readFile ''/src/b.ts/'' store1 = (Inr [], store1) \<and>
   Map_get (files store1) (normalizePath ''/src/a.ts'') =
     Some \<lparr>type = File, content = Some ''let a'', mtime = 1\<rparr> \<and>
   readFile ''/src/a.ts'' store1 = (Inr ''let a'', store1) \<and>
   Map_get (files store1) (normalizePath ''/src/'') =
     Some \<lparr>type = Directory, content = None, mtime = 0\<rparr> \<and>
   readFile ''/src/'' store1 = (Inl (Error ''ENOENT: /src/''), store1) \<and>
   Map_get (files store1) (normalizePath ''/nope'') = None \<and>
   readFile ''/nope'' store1 = (Inl (Error ''ENOENT: /nope''), store1)"
proof -
  have g1: "Map_get (files store1) (normalizePath ''/src/b.ts/'') =
      Some \<lparr>type = File, content = None, mtime = 2\<rparr>"
    and g2: "Map_get (files store1) (normalizePath ''/src/a.ts'') =
      Some \<lparr>type = File, content = Some ''let a'', mtime = 1\<rparr>"
    and g3: "Map_get (files store1) (normalizePath ''/src/'') =
      Some \<lparr>type = Directory, content = None, mtime = 0\<rparr>"
    and g4: "Map_get (files store1) (normalizePath ''/nope'') = None"
    by (simp_all add: normalizePath_examples store1_def Map_get_def)
  have r1: "readFile ''/src/b.ts/'' store1 = (Inr [], store1)"
    using readFile_result [of "''/src/b.ts/''" store1] g1 by (simp add: prod_eq_iff)
  have r2: "readFile ''/src/a.ts'' store1 = (Inr ''let a'', store1)"
    using readFile_result [of "''/src/a.ts''" store1] g2 by (simp add: prod_eq_iff)
  have r3: "readFile ''/src/'' store1 = (Inl (Error ''ENOENT: /src/''), store1)"
    using readFile_result [of "''/src/''" store1] g3 by (simp add: prod_eq_iff)
  have r4: "readFile ''/nope'' store1 = (Inl (Error ''ENOENT: /nope''), store1)"
    using readFile_result [of "''/nope''" store1] g4 by (simp add: prod_eq_iff)
  from g1 g2 g3 g4 r1 r2 r3 r4 show ?thesis by simp
qed

text \<open>
  C7. When an entry exists at the normalised key of \<open>P\<close>, \<open>unlink P\<close> succeeds and
  \<open>exists P\<close> is false afterwards; a second \<open>unlink P\<close> fails with the \<open>ENOENT\<close> error
  and leaves the store unchanged.
\<close>

theorem unlink_twice:
  assumes "Map_has (files s) (normalizePath P)"
  shows "fst (unlink P s) = Inr () \<and>
         \<not> exists P (snd (unlink P s)) \<and>
         unlink P (snd (unlink P s)) = (Inl (Error (''ENOENT: '' @ P)), snd (unlink P s))"
  using assms by (simp add: unlink_def exists_def Let_def Map_has_delete)

theorem unlink_twice_witness:
  "Map_has (files store1) (normalizePath ''/src/a.ts'') \<and>
   fst (unlink ''/src/a.ts'' store1) = Inr () \<and>
   \<not> exists ''/src/a.ts'' (snd (unlink ''/src/a.ts'' store1)) \<and>
   unlink ''/src/a.ts'' (snd (unlink ''/src/a.ts'' store1)) =
     (Inl (Error ''ENOENT: /src/a.ts''), snd (unlink ''/src/a.ts'' store1))"
proof -
  have h: "Map_has (files store1) (normalizePath ''/src/a.ts'')"
    by (simp add: normalizePath_examples store1_def Map_has_def)
  show ?thesis
    using h unlink_twice [OF h] by simp
qed

text \<open>
  C9. \<open>unlink P\<close> does not look at the type of the entry: whatever entry the normalised
  key of \<open>P\<close> holds, a Directory as well as a File, the call succeeds, that key is gone,
  and every other key, a descendant of a deleted directory included, keeps its entry
  and its place in the order of the keys.
\<close>

theorem unlink_frame:
  assumes "Map_get (files s) (normalizePath P) = Some e"
  shows "fst (unlink P s) = Inr () \<and>
         Map_get (files (snd (unlink P s))) (normalizePath P) = None \<and>
         (\<forall>k. k \<noteq> normalizePath P \<longrightarrow>
            Map_get (files (snd (unlink P s))) k = Map_get (files s) k) \<and>
         Map_keys (files (snd (unlink P s))) = removeAll (normalizePath P) (Map_keys (files s)) \<and>
         dates (snd (unlink P s)) = dates s"
proof -
  have h: "Map_has (files s) (normalizePath P)"
    using assms by (simp add: Map_has_get)
  show ?thesis
    using h by (simp add: unlink_def Let_def Map_get_delete Map_keys_delete)
qed

theorem unlink_frame_witness:
  "Map_get (files store1) (normalizePath ''/src/'') =
     Some \<lparr>type = Directory, content = None, mtime = 0\<rparr> \<and>
   fst (unlink ''/src/'' store1) = Inr () \<and>
   Map_get (files (snd (unlink ''/src/'' store1))) ''/src'' = None \<and>
   Map_get (files (snd (unlink ''/src/'' store1))) ''/src/a.ts'' =
     Some \<lparr>type = File, content = Some ''let a'', mtime = 1\<rparr> \<and>
   Map_keys (files (snd (unlink ''/src/'' store1))) = [''/src/a.ts'', ''/src/b.ts'']"
proof -
  have h: "Map_get (files store1) (normalizePath ''/src/'') =
      Some \<lparr>type = Directory, content = None, mtime = 0\<rparr>"
    by (simp add: normalizePath_examples store1_def Map_get_def)
  have a: "Map_get (files store1) ''/src/a.ts'' =
      Some \<lparr>type = File, content = Some ''let a'', mtime = 1\<rparr>"
    by (simp add: store1_def Map_get_def)
  have k: "removeAll ''/src'' (Map_keys (files store1)) = [''/src/a.ts'', ''/src/b.ts'']"
    by (simp add: store1_def Map_keys_def)
  show ?thesis
    using h a k unlink_frame [OF h] by (simp add: normalizePath_examples)
qed

text \<open>
  C8. \<open>createMockFs\<close> stores the initial directories first and the initial files second.
  Take a path of \<open>initialFiles\<close> that no later path of \<open>initialFiles\<close> normalises alike,
  and whose key is also the key of a path of \<open>initialDirs\<close>. The directories alone leave
  a Directory entry at that key; the constructed store holds there a File entry with the
  content given for the path, stamped with the date read after those of all directories
  and of the files before it, and the keys the directories created still come first, in
  their order: the file entry wins.
\<close>

theorem createMockFs_file_wins:
  assumes "initialDirs opts = Some dirs"
    and "initialFiles opts = Some (pre @ (fp, c) # post)"
    and "normalizePath fp \<in> normalizePath ` set dirs"
    and "\<not> list_ex (\<lambda>e. normalizePath (fst e) = normalizePath fp) post"
  shows "map_option type
           (Map_get (files (createMockFs (opts\<lparr>initialFiles := None\<rparr>) clock)) (normalizePath fp)) =
           Some Directory \<and>
         Map_get (files (createMockFs opts clock)) (normalizePath fp) =
           Some \<lparr>type = File, content = Some c, mtime = clock (length dirs + length pre)\<rparr> \<and>
         take (length (files (createMockFs (opts\<lparr>initialFiles := None\<rparr>) clock)))
           (Map_keys (files (createMockFs opts clock))) =
           Map_keys (files (createMockFs (opts\<lparr>initialFiles := None\<rparr>) clock))"
proof -
  define s1 where "s1 = dirs_loop dirs \<lparr>files = [], dates = clock\<rparr>"
  have d: "createMockFs (opts\<lparr>initialFiles := None\<rparr>) clock = s1"
    using assms(1) by (simp add: createMockFs_def s1_def)
  have f: "createMockFs opts clock = files_loop (pre @ (fp, c) # post) s1"
    using assms(1,2) by (simp add: createMockFs_def s1_def)
  have 1: "map_option type (Map_get (files s1) (normalizePath fp)) = Some Directory"
    unfolding s1_def using assms(3) by (rule dirs_loop_Directory)
  have "dates s1 (length pre) = clock (length dirs + length pre)"
    by (simp add: s1_def dates_dirs_loop add.commute)
  then have 2: "Map_get (files (files_loop (pre @ (fp, c) # post) s1)) (normalizePath fp) =
      Some \<lparr>type = File, content = Some c, mtime = clock (length dirs + length pre)\<rparr>"
    using files_loop_last [OF assms(4), of pre c s1] by simp
  have "take (length (files s1)) (Map_keys (files s1)) = Map_keys (files s1)"
    by (simp add: Map_keys_def)
  then have 3: "take (length (files s1)) (Map_keys (files (files_loop (pre @ (fp, c) # post) s1))) =
      Map_keys (files s1)"
    by (rule files_loop_keeps_prefix) simp
  from 1 2 3 show ?thesis
    unfolding d f by simp
qed

theorem createMockFs_file_wins_witness:
  "initialDirs opts8 = Some [''/dist'', ''/src''] \<and>
   initialFiles opts8 = Some ([(''/src'', ''old'')] @ (''/src/'', ''x'') # [(''/a.txt'', ''y'')]) \<and>
   normalizePath ''/src/'' \<in> normalizePath ` set [''/dist'', ''/src''] \<and>
   \<not> list_ex (\<lambda>e. normalizePath (fst e) = normalizePath ''/src/'') [(''/a.txt'', ''y'')] \<and>
   map_option type
     (Map_get (files (createMockFs (opts8\<lparr>initialFiles := None\<rparr>) ticks)) ''/src'') =
     Some Directory \<and>
   Map_get (files (createMockFs opts8 ticks)) ''/src'' =
     Some \<lparr>type = File, content = Some ''x'', mtime = 3\<rparr> \<and>
   take 2 (Map_keys (files (createMockFs opts8 ticks))) = [''/dist'', ''/src'']"
proof -
  have h1: "initialDirs opts8 = Some [''/dist'', ''/src'']"
    and h2: "initialFiles opts8 =
      Some ([(''/src'', ''old'')] @ (''/src/'', ''x'') # [(''/a.txt'', ''y'')])"
    by (simp_all add: opts8_def)
  have h3: "normalizePath ''/src/'' \<in> normalizePath ` set [''/dist'', ''/src'']"
    by (simp add: normalizePath_examples)
  have h4: "\<not> list_ex (\<lambda>e. normalizePath (fst e) = normalizePath ''/src/'')
      [(''/a.txt'', ''y'')]"
    by (simp add: normalizePath_examples)
  have d: "files (createMockFs (opts8\<lparr>initialFiles := None\<rparr>) ticks) =
      [(''/dist'', \<lparr>type = Directory, content = None, mtime = 0\<rparr>),
       (''/src'', \<lparr>type = Directory, content = None, mtime = 1\<rparr>)]"
    by (simp add: createMockFs_def opts8_def normalizePath_examples files_set_directory
        dates_set_directory ticks_def)
  from h1 h2 h3 h4 createMockFs_file_wins [OF h1 h2 h3 h4, of ticks]
  show ?thesis
    by (simp add: d normalizePath_examples ticks_def Map_keys_def
        numeral_2_eq_2 numeral_3_eq_3)
qed

text \<open>
  The condition on later paths is needed: when \<open>initialFiles\<close> gives \<open>x\<close> for \<open>/src/\<close> and
  then \<open>y\<close> for \<open>/src\<close>, both paths have the key \<open>/src\<close>, and the entry there holds \<open>y\<close>,
  not the content given for \<open>/src/\<close>.
\<close>

theorem createMockFs_file_wins_counterexample:
  "initialDirs optsAlias = Some [''/src''] \<and>
   initialFiles optsAlias = Some [(''/src/'', ''x''), (''/src'', ''y'')] \<and>
   normalizePath ''/src/'' = ''/src'' \<and>
   Map_get (files (createMockFs optsAlias ticks)) ''/src'' =
     Some \<lparr>type = File, content = Some ''y'', mtime = 2\<rparr>"
  by (simp add: optsAlias_def createMockFs_def normalizePath_examples files_set_directory
      files_set_file dates_set_directory dates_set_file set_directory_def set_file_def
      new_Date_def ticks_def Map_get_def)

text \<open>
  C10. \<open>normalizePath\<close> maps \<open>/\<close>, and every path made of slashes and backslashes only,
  to the empty string, so \<open>exists "/"\<close> tells whether the empty key is present. It is
  absent, and \<open>exists "/"\<close> false, on every store constructed from options none of whose
  paths is made of separators only and then driven by calls none of which is a
  \<open>writeFile\<close> or \<open>mkdir\<close> with such a path.
\<close>

theorem exists_root:
  "(allSeparators p \<longrightarrow> normalizePath p = []) \<and>
   exists ''/'' s = Map_has (files s) [] \<and>
   (\<not> list_ex allSeparators (initialPaths opts) \<and> \<not> list_ex createsAtAllSlashPath calls \<longrightarrow>
      \<not> exists ''/'' (run calls (createMockFs opts clock)))"
proof -
  have "allSeparators ''/''"
    by (simp add: allSeparators_def isSep_def slash_def)
  then have n: "normalizePath ''/'' = []"
    by (simp only: normalizePath_Nil_iff)
  have a: "allSeparators p \<longrightarrow> normalizePath p = []"
    by (simp add: normalizePath_Nil_iff)
  have b: "exists ''/'' s = Map_has (files s) []" for s
    by (simp only: exists_def n)
  have c: "\<not> exists ''/'' (run calls (createMockFs opts clock))"
    if "\<not> list_ex allSeparators (initialPaths opts)" and "\<not> list_ex createsAtAllSlashPath calls"
    unfolding b using that(2) createMockFs_no_root [OF that(1)] by (rule run_no_root)
  from a b c show ?thesis by blast
qed

theorem exists_root_witness:
  "allSeparators (''//'' @ [backslash]) \<and>
   normalizePath (''//'' @ [backslash]) = [] \<and>
   \<not> list_ex allSeparators (initialPaths opts10) \<and>
   \<not> list_ex createsAtAllSlashPath calls10 \<and>
   \<not> exists ''/'' (run calls10 (createMockFs opts10 ticks)) \<and>
   exists ''/config.json'' (run calls10 (createMockFs opts10 ticks))"
proof -
  have h1: "allSeparators (''//'' @ [backslash])"
    by (simp add: allSeparators_def isSep_def slash_def)
  have h2: "\<not> list_ex allSeparators (initialPaths opts10)"
    by (simp add: initialPaths_def opts10_def allSeparators_def isSep_def slash_def backslash_def)
  have h3: "\<not> list_ex createsAtAllSlashPath calls10"
    by (simp add: calls10_def allSeparators_def isSep_def slash_def backslash_def)
  have f: "exists ''/config.json'' (run calls10 (createMockFs opts10 ticks))"
    unfolding calls10_def opts10_def by code_simp
  from h1 h2 h3 f exists_root [of "''//'' @ [backslash]" _ opts10 calls10 ticks]
  show ?thesis by blast
qed

text \<open>
  The condition on the options is needed: a store constructed with the initial
  directory \<open>/\<close> holds the empty key before any call is made.
\<close>

theorem exists_root_counterexample:
  "\<not> list_ex createsAtAllSlashPath [] \<and>
   exists ''/'' (run [] (createMockFs \<lparr>initialFiles = None, initialDirs = Some [''/'']\<rparr> ticks))"
  by code_simp

end
